theory Spec2Isabelle
  imports Main "HOL-Library.Product_Lexorder" "HOL-Library.Multiset"
begin

section \<open>Data model of \<open>patrickstar/core/eviction_policy.py\<close>\<close>

text \<open>
  Modelled from the spec: the device descriptor is a \<open>torch.device\<close>, declared outside
  the sources. The policy reads its \<open>type\<close> attribute and uses the whole descriptor
  (type and optional index) as part of a dictionary key.
\<close>

record Device =
  dev_type :: string
  dev_index :: "nat option"

text \<open>
  Modelled from the spec: \<open>ChunkState\<close> lives in \<open>patrickstar.core.const\<close>, which is not
  among the sources. The policy names \<open>COMPUTE\<close>, \<open>RELEASED\<close> and (in a comment)
  \<open>FREE\<close>; every other member of the enumeration is \<open>OtherState n\<close>.
\<close>

datatype ChunkState = FREE | COMPUTE | RELEASED | OtherState nat

text \<open>
  Modelled from the spec: the chunk objects belong to the memory manager. The policy
  calls \<open>get_device()\<close> (\<open>None\<close> when the chunk is not placed), \<open>get_state()\<close>,
  \<open>is_pin()\<close> and \<open>get_payload_space()\<close>, the size in bytes freed by evicting the
  chunk. A size is a byte count, so it is a natural number; the required byte count,
  which the caller chooses, is an integer of either sign.
\<close>

record Chunk =
  get_device :: "Device option"
  get_state :: ChunkState
  is_pin :: bool
  get_payload_space :: nat

text \<open>
  Modelled from the spec: \<open>Metronome\<close> comes from \<open>patrickstar.utils\<close>. A moment is a
  non-negative logical timestamp; \<open>total_moment\<close> is the length of the period.
\<close>

record Metronome =
  moment :: nat
  total_moment :: nat
  is_warmup :: bool

text \<open>
  \<open>ChunkEvictionPolicyBase\<close>: the access dictionary, keyed by (chunk id, device), and
  the metronome handed to the constructor.
\<close>

record Policy =
  chunk_access_dict :: "(nat \<times> Device) \<rightharpoonup> nat list"
  metronome :: Metronome

datatype error = IndexError | OverflowError

text \<open>
  Modelled from the spec: \<open>log_dist\<close> comes from \<open>patrickstar.utils\<close>. A call of it is
  recorded as one entry of the diagnostic log; the entry keeps what the message is
  formatted from (target device, bytes needed, bytes obtained, and the
  \<open>next_mom\<close>/\<open>chunk_id\<close> pairs of \<open>movable_chunk_info\<close>). Ranks \<open>[0]\<close> and level
  \<open>WARNING\<close> are the same in every call.
\<close>

datatype log_entry = Log_dist Device int int "(nat \<times> nat) list"

section \<open>The policy base class\<close>

definition init_policy :: "Metronome \<Rightarrow> Policy" where
  "init_policy m = \<lparr>chunk_access_dict = Map.empty, metronome = m\<rparr>"

definition trace_access :: "Policy \<Rightarrow> nat \<Rightarrow> Device \<Rightarrow> Policy" where
  "trace_access p chunk_id dev =
     (let cur_mom = moment (metronome p);
          access_mom_list =
            (case chunk_access_dict p (chunk_id, dev) of
               None \<Rightarrow> []
             | Some recorded \<Rightarrow> recorded)
      in p\<lparr>chunk_access_dict :=
             (chunk_access_dict p)((chunk_id, dev) \<mapsto> access_mom_list @ [cur_mom])\<rparr>)"

text \<open>The \<open>for mom in access_mom_list\<close> loop: the first moment after \<open>cur_mom\<close>.\<close>

fun scan_moments :: "nat \<Rightarrow> nat list \<Rightarrow> nat option" where
  "scan_moments cur_mom [] = None"
| "scan_moments cur_mom (mom # rest) =
     (if mom > cur_mom then Some mom else scan_moments cur_mom rest)"

definition chunk_next_used_moment :: "Policy \<Rightarrow> nat \<Rightarrow> Device \<Rightarrow> error + nat" where
  "chunk_next_used_moment p chunk_id dev =
     (if is_warmup (metronome p) then Inr 0
      else
        let cur_mom = moment (metronome p);
            total_mom = total_moment (metronome p)
        in case chunk_access_dict p (chunk_id, dev) of
             None \<Rightarrow> Inr (2 * total_mom)
           | Some access_mom_list \<Rightarrow>
               (case scan_moments cur_mom access_mom_list of
                  Some mom \<Rightarrow> Inr mom
                | None \<Rightarrow>
                    (case access_mom_list of
                       [] \<Rightarrow> Inl IndexError
                     | first_mom # _ \<Rightarrow> Inr (total_mom + first_mom))))"

section \<open>\<open>LRUEvictionPolicy.derive_eviction_list\<close>\<close>

text \<open>The condition of the first loop.\<close>

definition movable :: "Device \<Rightarrow> Chunk \<Rightarrow> bool" where
  "movable target_device chunk =
     (case get_device chunk of
        None \<Rightarrow> False
      | Some d \<Rightarrow>
          dev_type d = dev_type target_device
          \<and> get_state chunk \<noteq> COMPUTE
          \<and> get_state chunk \<noteq> RELEASED
          \<and> \<not> is_pin chunk)"

text \<open>
  \<open>queue.PriorityQueue\<close> hands its entries back lowest first, the tuples compared
  lexicographically. The queue is the ascending list of its entries: \<open>put\<close> inserts in
  order, \<open>get\<close> takes the head.
\<close>

type_synonym pqueue = "(int \<times> nat) list"

definition q_put :: "pqueue \<Rightarrow> int \<times> nat \<Rightarrow> pqueue" where
  "q_put q entry = insort entry q"

text \<open>The loop over \<open>enumerate(chunks)\<close>, filling the queue and \<open>movable_chunk_info\<close>.\<close>

fun fill_queue ::
  "Policy \<Rightarrow> Device \<Rightarrow> (nat \<times> Chunk) list \<Rightarrow> pqueue \<Rightarrow> (nat \<times> nat) list
     \<Rightarrow> error + (pqueue \<times> (nat \<times> nat) list)" where
  "fill_queue p target_device [] q movable_chunk_info = Inr (q, movable_chunk_info)"
| "fill_queue p target_device ((chunk_id, chunk) # rest) q movable_chunk_info =
     (if movable target_device chunk then
        (case chunk_next_used_moment p chunk_id target_device of
           Inl e \<Rightarrow> Inl e
         | Inr next_mom \<Rightarrow>
             fill_queue p target_device rest
               (q_put q (- int next_mom, chunk_id))
               (movable_chunk_info @ [(next_mom, chunk_id)]))
      else fill_queue p target_device rest q movable_chunk_info)"

text \<open>The \<open>while not q.empty()\<close> loop with its \<open>break\<close>.\<close>

fun drain_queue ::
  "Chunk list \<Rightarrow> int \<Rightarrow> pqueue \<Rightarrow> nat list \<Rightarrow> int \<Rightarrow> error + (nat list \<times> int)" where
  "drain_queue chunks need_bytes [] moved_list moved_bytes = Inr (moved_list, moved_bytes)"
| "drain_queue chunks need_bytes ((next_mom, chunk_id) # q) moved_list moved_bytes =
     (if chunk_id < length chunks then
        (let moved_bytes' = moved_bytes + int (get_payload_space (chunks ! chunk_id));
             moved_list' = moved_list @ [chunk_id]
         in if moved_bytes' \<ge> need_bytes then Inr (moved_list', moved_bytes')
            else drain_queue chunks need_bytes q moved_list' moved_bytes')
      else Inl IndexError)"

text \<open>
  The warning message divides \<open>need_bytes\<close> and \<open>moved_bytes\<close> by the float \<open>1e6\<close>.
  Python converts the integer to a float first and raises \<open>OverflowError\<close> when it
  does not fit: the largest finite double is \<open>2^1024 - 2^971\<close>, and an integer of
  magnitude \<open>2^1024 - 2^970\<close> or more rounds beyond it.
\<close>

definition float_limit :: int where
  "float_limit = 2 ^ 1024 - 2 ^ 970"

definition float_overflows :: "int \<Rightarrow> bool" where
  "float_overflows n = (float_limit \<le> \<bar>n\<bar>)"

text \<open>
  The block after the loop: when the bytes obtained fall short, the message is built
  (\<open>need_bytes / 1e6\<close> first, then \<open>moved_bytes / 1e6\<close>) and handed to \<open>log_dist\<close>.
\<close>

definition warn_not_enough_space ::
  "Device \<Rightarrow> int \<Rightarrow> int \<Rightarrow> (nat \<times> nat) list \<Rightarrow> error + log_entry list" where
  "warn_not_enough_space target_device need_bytes moved_bytes movable_chunk_info =
     (if moved_bytes < need_bytes then
        (if float_overflows need_bytes then Inl OverflowError
         else if float_overflows moved_bytes then Inl OverflowError
         else Inr [Log_dist target_device need_bytes moved_bytes movable_chunk_info])
      else Inr [])"

text \<open>
  The result is the returned \<open>moved_list\<close> together with the log entries emitted, or
  the exception raised on the way.
\<close>

definition derive_eviction_list ::
  "Policy \<Rightarrow> Chunk list \<Rightarrow> int \<Rightarrow> Device \<Rightarrow> error + (nat list \<times> log_entry list)" where
  "derive_eviction_list p chunks need_bytes target_device =
     (case fill_queue p target_device (enumerate 0 chunks) [] [] of
        Inl e \<Rightarrow> Inl e
      | Inr (q, movable_chunk_info) \<Rightarrow>
          (case drain_queue chunks need_bytes q [] 0 of
             Inl e \<Rightarrow> Inl e
           | Inr (moved_list, moved_bytes) \<Rightarrow>
               (case warn_not_enough_space target_device need_bytes moved_bytes
                       movable_chunk_info of
                  Inl e \<Rightarrow> Inl e
                | Inr log \<Rightarrow> Inr (moved_list, log))))"

section \<open>Notions used to state the properties\<close>

text \<open>
  Every trace in the dictionary is non-empty. \<open>trace_access\<close> is the only writer of
  the dictionary and appends right after creating a trace, so this holds of every
  policy built from \<open>init_policy\<close>.
\<close>

definition traces_nonempty :: "Policy \<Rightarrow> bool" where
  "traces_nonempty p = (\<forall>k. chunk_access_dict p k \<noteq> Some [])"

text \<open>The evictable candidates: the positions of the registry whose chunk passes the filter.\<close>

definition candidates :: "Device \<Rightarrow> Chunk list \<Rightarrow> nat list" where
  "candidates target_device chunks =
     filter (\<lambda>i. movable target_device (chunks ! i)) [0..<length chunks]"

definition payload_sum :: "Chunk list \<Rightarrow> nat list \<Rightarrow> int" where
  "payload_sum chunks ids = (\<Sum>i\<leftarrow>ids. int (get_payload_space (chunks ! i)))"

text \<open>
  The prediction as a number, the queue entry of a candidate, and the queue once the
  first loop is over: the entries of all candidates in ascending order.
\<close>

definition next_mom_of :: "Policy \<Rightarrow> Device \<Rightarrow> nat \<Rightarrow> nat" where
  "next_mom_of p dev chunk_id =
     (case chunk_next_used_moment p chunk_id dev of Inr m \<Rightarrow> m | Inl _ \<Rightarrow> 0)"

definition queue_entry :: "Policy \<Rightarrow> Device \<Rightarrow> nat \<Rightarrow> int \<times> nat" where
  "queue_entry p dev chunk_id = (- int (next_mom_of p dev chunk_id), chunk_id)"

definition ranking :: "Policy \<Rightarrow> Device \<Rightarrow> Chunk list \<Rightarrow> pqueue" where
  "ranking p dev chunks = sort (map (queue_entry p dev) (candidates dev chunks))"

text \<open>
  \<open>ranks_before p dev a b\<close>: chunk \<open>a\<close> is predicted to be used strictly later than
  chunk \<open>b\<close>, or at the same moment with \<open>a\<close> the smaller identifier.
\<close>

definition ranks_before :: "Policy \<Rightarrow> Device \<Rightarrow> nat \<Rightarrow> nat \<Rightarrow> bool" where
  "ranks_before p dev a b =
     (case (chunk_next_used_moment p a dev, chunk_next_used_moment p b dev) of
        (Inr ma, Inr mb) \<Rightarrow> mb < ma \<or> (ma = mb \<and> a < b)
      | _ \<Rightarrow> False)"

section \<open>Concrete scenarios\<close>

definition cuda :: Device where
  "cuda = \<lparr>dev_type = ''cuda'', dev_index = Some 0\<rparr>"

definition cpu :: Device where
  "cpu = \<lparr>dev_type = ''cpu'', dev_index = None\<rparr>"

definition replay_at :: "nat \<Rightarrow> Metronome" where
  "replay_at cur = \<lparr>moment = cur, total_moment = 10, is_warmup = False\<rparr>"

definition warmup_at :: "nat \<Rightarrow> Metronome" where
  "warmup_at cur = \<lparr>moment = cur, total_moment = 0, is_warmup = True\<rparr>"

text \<open>Chunk 0 was used on \<open>cuda\<close> at moments 2 and 7 of a period of 10 moments.\<close>

definition trace_2_7 :: "nat \<Rightarrow> Policy" where
  "trace_2_7 cur =
     \<lparr>chunk_access_dict = [(0, cuda) \<mapsto> [2, 7]], metronome = replay_at cur\<rparr>"

definition hold_chunk :: "Device \<Rightarrow> nat \<Rightarrow> Chunk" where
  "hold_chunk dev n =
     \<lparr>get_device = Some dev, get_state = OtherState 0, is_pin = False,
      get_payload_space = n\<rparr>"

text \<open>
  The end-to-end scenario: chunks A, B, C are the positions 0, 1, 2 of the registry,
  of 500, 300 and 200 bytes, next used at moments 3, 9 and 6.
\<close>

definition abc_policy :: Policy where
  "abc_policy =
     \<lparr>chunk_access_dict = [(0, cuda) \<mapsto> [3], (1, cuda) \<mapsto> [9], (2, cuda) \<mapsto> [6]],
      metronome = replay_at 0\<rparr>"

definition abc_chunks :: "Chunk list" where
  "abc_chunks = [hold_chunk cuda 500, hold_chunk cuda 300, hold_chunk cuda 200]"

text \<open>A policy that recorded nothing during warm-up, and two equal chunks on \<open>cuda\<close>.\<close>

definition untraced_at :: "nat \<Rightarrow> Policy" where
  "untraced_at cur = init_policy (replay_at cur)"

definition pair_chunks :: "Chunk list" where
  "pair_chunks = [hold_chunk cuda 100, hold_chunk cuda 100]"

text \<open>A registry with a chunk in use, a pinned chunk, a chunk on the host and a movable one.\<close>

definition mixed_chunks :: "Chunk list" where
  "mixed_chunks =
     [(hold_chunk cuda 500)\<lparr>get_state := COMPUTE\<rparr>,
      (hold_chunk cuda 300)\<lparr>is_pin := True\<rparr>,
      hold_chunk cpu 100,
      hold_chunk cuda 200]"

text \<open>A policy still in warm-up, with some accesses already recorded.\<close>

definition warm_policy :: Policy where
  "warm_policy =
     \<lparr>chunk_access_dict = [(1, cuda) \<mapsto> [4], (2, cuda) \<mapsto> [1]], metronome = warmup_at 5\<rparr>"

text \<open>The A, B, C registry with a fourth chunk that was never traced.\<close>

definition abcd_chunks :: "Chunk list" where
  "abcd_chunks = abc_chunks @ [hold_chunk cuda 50]"

section \<open>Auxiliary facts\<close>

lemma scan_moments_find: "scan_moments cur xs = List.find (\<lambda>m. cur < m) xs"
  by (induction xs) simp_all

lemma scan_moments_None: "scan_moments cur xs = None \<longleftrightarrow> (\<forall>m\<in>set xs. m \<le> cur)"
  by (auto simp: scan_moments_find find_None_iff not_less)

lemma scan_moments_Some:
  "scan_moments cur xs = Some m \<longleftrightarrow>
     (\<exists>i<length xs. xs ! i = m \<and> cur < m \<and> (\<forall>j<i. xs ! j \<le> cur))"
proof -
  have "scan_moments cur xs = Some m \<longleftrightarrow>
        (\<exists>i<length xs. cur < xs ! i \<and> m = xs ! i \<and> (\<forall>j<i. \<not> cur < xs ! j))"
    unfolding scan_moments_find by (rule find_Some_iff)
  then show ?thesis
    by (metis not_less)
qed

lemma next_mom_Inr:
  "traces_nonempty p \<Longrightarrow> chunk_next_used_moment p i dev = Inr (next_mom_of p dev i)"
proof (cases "chunk_next_used_moment p i dev")
  case (Inr m)
  then show ?thesis by (simp add: next_mom_of_def)
next
  case (Inl e)
  assume ne: "traces_nonempty p"
  from Inl have "chunk_access_dict p (i, dev) = Some []"
    by (simp add: chunk_next_used_moment_def Let_def
        split: if_splits option.splits list.splits)
  with ne show ?thesis by (simp add: traces_nonempty_def)
qed

lemma next_mom_warmup:
  "is_warmup (metronome p) \<Longrightarrow> chunk_next_used_moment p i dev = Inr 0"
  by (simp add: chunk_next_used_moment_def)

lemma enumerate_nth: "enumerate 0 xs = map (\<lambda>i. (i, xs ! i)) [0..<length xs]"
  by (rule nth_equalityI) (simp_all add: nth_enumerate_eq)

lemma fill_queue_map:
  assumes "\<And>i. chunk_next_used_moment p i dev = Inr (next_mom_of p dev i)"
  shows "fill_queue p dev (map (\<lambda>i. (i, chunks ! i)) ids) q info =
     Inr (fold insort (map (queue_entry p dev) (filter (\<lambda>i. movable dev (chunks ! i)) ids)) q,
          info @ map (\<lambda>i. (next_mom_of p dev i, i)) (filter (\<lambda>i. movable dev (chunks ! i)) ids))"
  by (induction ids arbitrary: q info) (simp_all add: assms q_put_def queue_entry_def)

lemma fill_queue_enumerate:
  assumes "\<And>i. chunk_next_used_moment p i dev = Inr (next_mom_of p dev i)"
  shows "fill_queue p dev (enumerate 0 chunks) [] [] =
     Inr (ranking p dev chunks, map (\<lambda>i. (next_mom_of p dev i, i)) (candidates dev chunks))"
  using fill_queue_map [OF assms, of chunks "[0..<length chunks]" "[]" "[]"]
  by (simp add: enumerate_nth ranking_def candidates_def sort_conv_fold)

lemma drain_queue_take:
  assumes "\<forall>e\<in>set q. snd e < length chunks"
  shows "\<exists>n\<le>length q.
     drain_queue chunks need q ml mb =
       Inr (ml @ map snd (take n q), mb + payload_sum chunks (map snd (take n q)))
     \<and> (n = length q \<or> need \<le> mb + payload_sum chunks (map snd (take n q)))
     \<and> (q \<noteq> [] \<longrightarrow> 0 < n)"
  using assms
proof (induction q arbitrary: ml mb)
  case Nil
  then show ?case by (simp add: payload_sum_def)
next
  case (Cons e q)
  obtain k i where e: "e = (k, i)" by (cases e)
  let ?mb = "mb + int (get_payload_space (chunks ! i))"
  from Cons.prems e have i: "i < length chunks" by simp
  show ?case
  proof (cases "need \<le> ?mb")
    case True
    then have "drain_queue chunks need (e # q) ml mb = Inr (ml @ map snd (take 1 (e # q)), mb + payload_sum chunks (map snd (take 1 (e # q))))"
      using i e by (simp add: payload_sum_def)
    with True show ?thesis 
      by (intro exI[of _ 1]) (simp add: payload_sum_def e)
  next
    case False
    from Cons.prems have "\<forall>e\<in>set q. snd e < length chunks" by simp
    from Cons.IH [OF this, of "ml @ [i]" ?mb] obtain n where n: "n \<le> length q"
      "drain_queue chunks need q (ml @ [i]) ?mb =
         Inr ((ml @ [i]) @ map snd (take n q), ?mb + payload_sum chunks (map snd (take n q)))"
      "n = length q \<or> need \<le> ?mb + payload_sum chunks (map snd (take n q))"
      by blast
    show ?thesis
      using False i e n by (intro exI[of _ "Suc n"]) (auto simp: payload_sum_def)
  qed
qed

section \<open>Next-use prediction\<close>

text \<open>
  Claim C1. After warm-up, for a chunk and device with a non-empty recorded trace:
  if some recorded moment is strictly greater than the current moment, the prediction
  is the first such moment in recorded order; otherwise it is \<open>total_moment\<close> plus the
  first recorded moment. With a period of 10 and the trace \<open>[2, 7]\<close> the prediction is
  12 at moment 8, 7 at moment 5 and 12 at moment 9.
\<close>

theorem next_used_moment_cyclic:
  "(\<not> is_warmup (metronome p) \<and> chunk_access_dict p (chunk_id, dev) = Some xs \<and> xs \<noteq> []
      \<longrightarrow> (\<exists>m. chunk_next_used_moment p chunk_id dev = Inr m \<and>
            (if \<exists>x\<in>set xs. moment (metronome p) < x
             then \<exists>i<length xs. m = xs ! i \<and> moment (metronome p) < xs ! i
                    \<and> (\<forall>j<i. xs ! j \<le> moment (metronome p))
             else m = total_moment (metronome p) + hd xs)))
   \<and> chunk_next_used_moment (trace_2_7 8) 0 cuda = Inr 12
   \<and> chunk_next_used_moment (trace_2_7 5) 0 cuda = Inr 7
   \<and> chunk_next_used_moment (trace_2_7 9) 0 cuda = Inr 12"
proof -
  let ?cur = "moment (metronome p)"
  have general: "\<exists>m. chunk_next_used_moment p chunk_id dev = Inr m \<and>
            (if \<exists>x\<in>set xs. ?cur < x
             then \<exists>i<length xs. m = xs ! i \<and> ?cur < xs ! i \<and> (\<forall>j<i. xs ! j \<le> ?cur)
             else m = total_moment (metronome p) + hd xs)"
    if replay: "\<not> is_warmup (metronome p)"
      and traced: "chunk_access_dict p (chunk_id, dev) = Some xs"
      and nonempty: "xs \<noteq> []"
  proof (cases "scan_moments ?cur xs")
    case None
    then have no: "\<not> (\<exists>x\<in>set xs. ?cur < x)"
      by (auto simp: scan_moments_None not_less)
    from nonempty obtain x rest where "xs = x # rest" by (cases xs) auto
    with None replay traced have
      "chunk_next_used_moment p chunk_id dev = Inr (total_moment (metronome p) + hd xs)"
      by (simp add: chunk_next_used_moment_def)
    with no show ?thesis by simp
  next
    case (Some m)
    then obtain i where i: "i < length xs" "xs ! i = m" "?cur < m" "\<forall>j<i. xs ! j \<le> ?cur"
      unfolding scan_moments_Some by blast
    then have yes: "\<exists>x\<in>set xs. ?cur < x"
      using nth_mem by blast
    from Some replay traced have "chunk_next_used_moment p chunk_id dev = Inr m"
      by (simp add: chunk_next_used_moment_def)
    with yes i show ?thesis by auto
  qed
  have at_8: "chunk_next_used_moment (trace_2_7 8) 0 cuda = Inr 12"
    by (simp add: chunk_next_used_moment_def trace_2_7_def replay_at_def)
  have at_5: "chunk_next_used_moment (trace_2_7 5) 0 cuda = Inr 7"
    by (simp add: chunk_next_used_moment_def trace_2_7_def replay_at_def)
  have at_9: "chunk_next_used_moment (trace_2_7 9) 0 cuda = Inr 12"
    by (simp add: chunk_next_used_moment_def trace_2_7_def replay_at_def)
  from general at_8 at_5 at_9 show ?thesis by blast
qed

theorem next_used_moment_cyclic_witness:
  "\<not> is_warmup (metronome (trace_2_7 9))
   \<and> chunk_access_dict (trace_2_7 9) (0, cuda) = Some [2, 7]
   \<and> [2, 7] \<noteq> ([] :: nat list)
   \<and> \<not> (\<exists>x\<in>set [2, 7]. moment (metronome (trace_2_7 9)) < x)
   \<and> (\<exists>m. chunk_next_used_moment (trace_2_7 9) 0 cuda = Inr m
          \<and> m = total_moment (metronome (trace_2_7 9)) + hd [2, 7])"
proof -
  have hyps: "\<not> is_warmup (metronome (trace_2_7 9))
      \<and> chunk_access_dict (trace_2_7 9) (0, cuda) = Some [2, 7] \<and> [2, 7] \<noteq> ([] :: nat list)"
    by (simp add: trace_2_7_def replay_at_def)
  have past: "\<not> (\<exists>x\<in>set [2, 7]. moment (metronome (trace_2_7 9)) < x)"
    by (simp add: trace_2_7_def replay_at_def)
  from next_used_moment_cyclic [of "trace_2_7 9" 0 cuda "[2, 7]"] hyps past
  have "\<exists>m. chunk_next_used_moment (trace_2_7 9) 0 cuda = Inr m
          \<and> m = total_moment (metronome (trace_2_7 9)) + hd [2, 7]"
    by simp
  with hyps past show ?thesis by blast
qed

section \<open>Facts about the two loops\<close>

lemma next_mom_ok:
  "is_warmup (metronome p) \<or> traces_nonempty p \<Longrightarrow>
     chunk_next_used_moment p i dev = Inr (next_mom_of p dev i)"
  using next_mom_Inr [of p i dev] next_mom_warmup [of p i dev]
  by (auto simp: next_mom_of_def)

lemma set_candidates:
  "set (candidates dev chunks) = {i. i < length chunks \<and> movable dev (chunks ! i)}"
  by (auto simp: candidates_def)

lemma distinct_candidates: "distinct (candidates dev chunks)"
  by (simp add: candidates_def)

lemma sorted_candidates: "sorted_wrt (<) (candidates dev chunks)"
  by (simp add: candidates_def sorted_wrt_filter strict_sorted_iff)

lemma payload_sum_candidates:
  "payload_sum chunks (candidates dev chunks) =
     (\<Sum>c\<leftarrow>filter (movable dev) chunks. int (get_payload_space c))"
proof -
  have "map (\<lambda>i. int (get_payload_space (chunks ! i)))
          (filter (\<lambda>i. movable dev (chunks ! i)) [0..<length chunks]) =
        map (\<lambda>c. int (get_payload_space c))
          (filter (movable dev) (map (nth chunks) [0..<length chunks]))"
    by (simp add: filter_map comp_def)
  then show ?thesis
    by (simp add: payload_sum_def candidates_def map_nth)
qed

lemma mset_ranking:
  "mset (map snd (ranking p dev chunks)) = mset (candidates dev chunks)"
proof -
  have "mset (map snd (ranking p dev chunks)) =
        image_mset snd (mset (map (queue_entry p dev) (candidates dev chunks)))"
    by (simp add: ranking_def)
  also have "\<dots> = mset (candidates dev chunks)"
    by (simp add: queue_entry_def multiset.map_comp comp_def)
  finally show ?thesis .
qed

lemma set_ranking:
  "set (ranking p dev chunks) = queue_entry p dev ` set (candidates dev chunks)"
  by (simp add: ranking_def)

lemma ranking_ids: "set (map snd (ranking p dev chunks)) = set (candidates dev chunks)"
  using mset_ranking [of p dev chunks] by (metis set_mset_mset)

lemma distinct_ranking_ids: "distinct (map snd (ranking p dev chunks))"
  using mset_ranking [of p dev chunks] distinct_candidates [of dev chunks]
  by (metis mset_eq_imp_distinct_iff)

lemma strict_ranking: "sorted_wrt (<) (ranking p dev chunks)"
proof -
  have "sorted (ranking p dev chunks)" by (simp add: ranking_def)
  moreover have "distinct (ranking p dev chunks)"
    using distinct_ranking_ids [of p dev chunks] by (simp add: distinct_map)
  ultimately show ?thesis by (simp add: strict_sorted_iff)
qed

lemma payload_sum_mset:
  "mset xs = mset ys \<Longrightarrow> payload_sum chunks xs = payload_sum chunks ys"
  unfolding payload_sum_def
  by (metis mset_map sum_mset_sum_list)

lemma payload_sum_ranking:
  "payload_sum chunks (map snd (ranking p dev chunks)) = payload_sum chunks (candidates dev chunks)"
  by (rule payload_sum_mset) (rule mset_ranking)

lemma payload_sum_take_le:
  "payload_sum chunks (take n xs) \<le> payload_sum chunks xs"
proof -
  have "payload_sum chunks xs = payload_sum chunks (take n xs) + payload_sum chunks (drop n xs)"
    unfolding payload_sum_def by (metis append_take_drop_id map_append sum_list_append)
  moreover have "0 \<le> payload_sum chunks (drop n xs)"
    unfolding payload_sum_def by (rule sum_list_nonneg) auto
  ultimately show ?thesis by simp
qed

lemma ranking_in_range: "\<forall>e\<in>set (ranking p dev chunks). snd e < length chunks"
  by (auto simp: set_ranking set_candidates queue_entry_def)

lemma payload_sum_nonneg: "0 \<le> payload_sum chunks ids"
  unfolding payload_sum_def by (rule sum_list_nonneg) auto

lemma warn_raises:
  assumes "warn_not_enough_space dev need moved info = Inl e"
  shows "e = OverflowError \<and> moved < need \<and> (float_overflows need \<or> float_overflows moved)"
  using assms by (simp add: warn_not_enough_space_def split: if_splits)

lemma warn_in_range:
  assumes "0 \<le> moved" and "moved < need" and "need < float_limit"
  shows "warn_not_enough_space dev need moved info = Inr [Log_dist dev need moved info]"
  using assms by (simp add: warn_not_enough_space_def float_overflows_def)

lemma warn_met:
  assumes "need \<le> moved"
  shows "warn_not_enough_space dev need moved info = Inr []"
  using assms by (simp add: warn_not_enough_space_def)

lemma derive_shape:
  assumes ok: "is_warmup (metronome p) \<or> traces_nonempty p"
  shows "\<exists>n\<le>length (ranking p dev chunks).
     derive_eviction_list p chunks need dev =
       (case warn_not_enough_space dev need
               (payload_sum chunks (map snd (take n (ranking p dev chunks))))
               (map (\<lambda>i. (next_mom_of p dev i, i)) (candidates dev chunks)) of
          Inl e \<Rightarrow> Inl e
        | Inr log \<Rightarrow> Inr (map snd (take n (ranking p dev chunks)), log))
     \<and> (n = length (ranking p dev chunks)
          \<or> need \<le> payload_sum chunks (map snd (take n (ranking p dev chunks))))
     \<and> (ranking p dev chunks \<noteq> [] \<longrightarrow> 0 < n)"
proof -
  let ?R = "ranking p dev chunks"
  from drain_queue_take [OF ranking_in_range, of p dev chunks need "[]" 0]
  obtain n where n: "n \<le> length ?R"
    "drain_queue chunks need ?R [] 0 =
       Inr (map snd (take n ?R), payload_sum chunks (map snd (take n ?R)))"
    "n = length ?R \<or> need \<le> payload_sum chunks (map snd (take n ?R))"
    "?R \<noteq> [] \<longrightarrow> 0 < n"
    by auto
  have fill: "fill_queue p dev (enumerate 0 chunks) [] [] =
     Inr (?R, map (\<lambda>i. (next_mom_of p dev i, i)) (candidates dev chunks))"
    by (rule fill_queue_enumerate) (rule next_mom_ok [OF ok])
  show ?thesis
    using n by (intro exI[of _ n]) (simp add: derive_eviction_list_def fill)
qed

text \<open>
  The call returns a prefix of the ranking, or raises \<open>OverflowError\<close>; the latter only
  when the requirement is beyond the float range and the candidates fall short of it.
\<close>

lemma derive_plan_cases:
  assumes ok: "is_warmup (metronome p) \<or> traces_nonempty p"
  shows "(\<exists>n log. derive_eviction_list p chunks need dev =
              Inr (map snd (take n (ranking p dev chunks)), log)
            \<and> (n = length (ranking p dev chunks)
                 \<or> need \<le> payload_sum chunks (map snd (take n (ranking p dev chunks)))))
         \<or> (derive_eviction_list p chunks need dev = Inl OverflowError
              \<and> float_limit \<le> need
              \<and> (\<Sum>c\<leftarrow>filter (movable dev) chunks. int (get_payload_space c)) < need)"
proof -
  let ?R = "ranking p dev chunks"
  let ?info = "map (\<lambda>i. (next_mom_of p dev i, i)) (candidates dev chunks)"
  from derive_shape [OF ok, of dev chunks need]
  obtain n where n:
    "derive_eviction_list p chunks need dev =
       (case warn_not_enough_space dev need (payload_sum chunks (map snd (take n ?R))) ?info of
          Inl e \<Rightarrow> Inl e
        | Inr log \<Rightarrow> Inr (map snd (take n ?R), log))"
    "n = length ?R \<or> need \<le> payload_sum chunks (map snd (take n ?R))"
    by blast
  let ?moved = "payload_sum chunks (map snd (take n ?R))"
  show ?thesis
  proof (cases "warn_not_enough_space dev need ?moved ?info")
    case (Inr log)
    with n have "derive_eviction_list p chunks need dev = Inr (map snd (take n ?R), log)"
      by simp
    with n(2) show ?thesis by blast
  next
    case (Inl e)
    from warn_raises [OF Inl] have e: "e = OverflowError" and short: "?moved < need"
      and over: "float_overflows need \<or> float_overflows ?moved"
      by simp_all
    have nonneg: "0 \<le> ?moved" by (rule payload_sum_nonneg)
    from over short nonneg have limit: "float_limit \<le> need"
      by (auto simp: float_overflows_def)
    from short n(2) have "n = length ?R" by linarith
    then have "?moved = payload_sum chunks (map snd ?R)" by simp
    then have "?moved = (\<Sum>c\<leftarrow>filter (movable dev) chunks. int (get_payload_space c))"
      by (simp only: payload_sum_ranking payload_sum_candidates)
    with short have "(\<Sum>c\<leftarrow>filter (movable dev) chunks. int (get_payload_space c)) < need"
      by simp
    moreover from n(1) Inl e have "derive_eviction_list p chunks need dev = Inl OverflowError"
      by simp
    ultimately show ?thesis using limit by blast
  qed
qed

lemma ranks_before_entries:
  assumes ok: "is_warmup (metronome p) \<or> traces_nonempty p"
    and "queue_entry p dev a < queue_entry p dev b"
  shows "ranks_before p dev a b"
  using assms(2) next_mom_ok [OF ok, of a dev] next_mom_ok [OF ok, of b dev]
  by (auto simp: ranks_before_def queue_entry_def)

lemma plan_ranked:
  assumes ok: "is_warmup (metronome p) \<or> traces_nonempty p"
  shows "sorted_wrt (ranks_before p dev) (map snd (take n (ranking p dev chunks)))"
proof -
  let ?R = "ranking p dev chunks"
  have entry: "e = queue_entry p dev (snd e)" if "e \<in> set ?R" for e
    using that by (auto simp: set_ranking queue_entry_def)
  have "sorted_wrt (<) (take n ?R)"
    using strict_ranking by (rule sorted_wrt_take)
  then have "sorted_wrt (\<lambda>x y. ranks_before p dev (snd x) (snd y)) (take n ?R)"
  proof (rule sorted_wrt_mono_rel [rotated])
    fix x y assume "x \<in> set (take n ?R)" "y \<in> set (take n ?R)" "x < y"
    then have "x \<in> set ?R" "y \<in> set ?R" by (auto dest: in_set_takeD)
    with entry \<open>x < y\<close> have "queue_entry p dev (snd x) < queue_entry p dev (snd y)"
      by metis
    then show "ranks_before p dev (snd x) (snd y)"
      by (rule ranks_before_entries [OF ok])
  qed
  then show ?thesis by (simp add: sorted_wrt_map)
qed

lemma movable_iff:
  "movable target_device chunk \<longleftrightarrow>
     (\<exists>d. get_device chunk = Some d \<and> dev_type d = dev_type target_device)
     \<and> get_state chunk \<noteq> COMPUTE \<and> get_state chunk \<noteq> RELEASED \<and> \<not> is_pin chunk"
  by (cases "get_device chunk") (simp_all add: movable_def)

section \<open>The eviction plan\<close>

text \<open>
  Claim C2. The plan lists chunk identifiers in order of non-increasing predicted
  next-use moment, ties between equal predictions broken by ascending chunk identifier.
  For the chunks A (500 bytes, next use 3), B (300 bytes, next use 9) and C (200 bytes,
  next use 6) and 400 required bytes the plan is exactly \<open>[B, C]\<close>. The call returns
  such a plan unless the required byte count is beyond the float range and more than
  the candidates hold, where building the warning raises \<open>OverflowError\<close>.
\<close>

theorem derive_eviction_list_order:
  "(traces_nonempty p \<longrightarrow>
      (\<exists>plan log. derive_eviction_list p chunks need_bytes target_device = Inr (plan, log)
         \<and> sorted_wrt (ranks_before p target_device) plan)
      \<or> (derive_eviction_list p chunks need_bytes target_device = Inl OverflowError
            \<and> float_limit \<le> need_bytes
            \<and> (\<Sum>c\<leftarrow>filter (movable target_device) chunks. int (get_payload_space c))
                  < need_bytes))
   \<and> chunk_next_used_moment abc_policy 0 cuda = Inr 3
   \<and> chunk_next_used_moment abc_policy 1 cuda = Inr 9
   \<and> chunk_next_used_moment abc_policy 2 cuda = Inr 6
   \<and> map get_payload_space abc_chunks = [500, 300, 200]
   \<and> derive_eviction_list abc_policy abc_chunks 400 cuda = Inr ([1, 2], [])"
proof -
  have general: "(\<exists>plan log. derive_eviction_list p chunks need_bytes target_device = Inr (plan, log)
         \<and> sorted_wrt (ranks_before p target_device) plan)
      \<or> (derive_eviction_list p chunks need_bytes target_device = Inl OverflowError
            \<and> float_limit \<le> need_bytes
            \<and> (\<Sum>c\<leftarrow>filter (movable target_device) chunks. int (get_payload_space c))
                  < need_bytes)" if ne: "traces_nonempty p"
  proof -
    from ne have ok: "is_warmup (metronome p) \<or> traces_nonempty p" by simp
    have "sorted_wrt (ranks_before p target_device)
            (map snd (take n (ranking p target_device chunks)))" for n
      by (rule plan_ranked [OF ok])
    with derive_plan_cases [OF ok, of chunks need_bytes target_device]
    show ?thesis by blast
  qed
  have moments: "chunk_next_used_moment abc_policy 0 cuda = Inr 3"
    "chunk_next_used_moment abc_policy 1 cuda = Inr 9"
    "chunk_next_used_moment abc_policy 2 cuda = Inr 6"
    by (simp_all add: chunk_next_used_moment_def abc_policy_def replay_at_def cuda_def)
  have sizes: "map get_payload_space abc_chunks = [500, 300, 200]"
    by (simp add: abc_chunks_def hold_chunk_def)
  have plan: "derive_eviction_list abc_policy abc_chunks 400 cuda = Inr ([1, 2], [])"
    by (simp add: derive_eviction_list_def warn_not_enough_space_def float_overflows_def
      float_limit_def abc_policy_def abc_chunks_def hold_chunk_def cuda_def
      replay_at_def movable_def chunk_next_used_moment_def q_put_def)
  from general moments sizes plan show ?thesis by blast
qed

theorem derive_eviction_list_order_witness:
  "traces_nonempty abc_policy
   \<and> (\<exists>plan log. derive_eviction_list abc_policy abc_chunks 4000 cuda = Inr (plan, log)
         \<and> sorted_wrt (ranks_before abc_policy cuda) plan \<and> plan = [1, 2, 0])"
proof -
  have ne: "traces_nonempty abc_policy"
    by (simp add: traces_nonempty_def abc_policy_def)
  have run: "\<exists>log. derive_eviction_list abc_policy abc_chunks 4000 cuda = Inr ([1, 2, 0], log)"
    by (simp add: derive_eviction_list_def warn_not_enough_space_def float_overflows_def
      float_limit_def abc_policy_def abc_chunks_def hold_chunk_def cuda_def
      replay_at_def movable_def chunk_next_used_moment_def q_put_def)
  then have returns: "derive_eviction_list abc_policy abc_chunks 4000 cuda \<noteq> Inl OverflowError"
    by auto
  from derive_eviction_list_order [of abc_policy abc_chunks 4000 cuda] ne returns
  obtain plan log where
    "derive_eviction_list abc_policy abc_chunks 4000 cuda = Inr (plan, log)"
    "sorted_wrt (ranks_before abc_policy cuda) plan"
    by blast
  moreover from this(1) run have "plan = [1, 2, 0]" by auto
  ultimately show ?thesis using ne by blast
qed

text \<open>
  Claim C3. If the payload sizes of all evictable candidates add up to at least the
  required byte count, the payload sizes of the chunks in the returned plan add up to
  at least the required byte count.
\<close>

theorem derive_eviction_list_sufficient:
  assumes "traces_nonempty p"
    and "need_bytes \<le> (\<Sum>c\<leftarrow>filter (movable target_device) chunks. int (get_payload_space c))"
  shows "\<exists>plan log. derive_eviction_list p chunks need_bytes target_device = Inr (plan, log)
           \<and> need_bytes \<le> (\<Sum>i\<leftarrow>plan. int (get_payload_space (chunks ! i)))"
proof -
  let ?R = "ranking p target_device chunks"
  from assms(1) have ok: "is_warmup (metronome p) \<or> traces_nonempty p" by simp
  from derive_plan_cases [OF ok, of chunks need_bytes target_device] assms(2)
  obtain n log where n:
    "derive_eviction_list p chunks need_bytes target_device = Inr (map snd (take n ?R), log)"
    "n = length ?R \<or> need_bytes \<le> payload_sum chunks (map snd (take n ?R))"
    by force
  have "need_bytes \<le> payload_sum chunks (map snd (take n ?R))"
  proof (cases "n = length ?R")
    case True
    then have "payload_sum chunks (map snd (take n ?R)) =
               payload_sum chunks (candidates target_device chunks)"
      by (simp add: payload_sum_ranking)
    with assms(2) show ?thesis by (simp add: payload_sum_candidates)
  next
    case False
    with n(2) show ?thesis by simp
  qed
  with n(1) show ?thesis unfolding payload_sum_def by blast
qed

theorem derive_eviction_list_sufficient_witness:
  "traces_nonempty abc_policy
   \<and> (400::int) \<le> (\<Sum>c\<leftarrow>filter (movable cuda) abc_chunks. int (get_payload_space c))
   \<and> (\<exists>plan log. derive_eviction_list abc_policy abc_chunks 400 cuda = Inr (plan, log)
         \<and> 400 \<le> (\<Sum>i\<leftarrow>plan. int (get_payload_space (abc_chunks ! i))))"
proof -
  have ne: "traces_nonempty abc_policy"
    by (simp add: traces_nonempty_def abc_policy_def)
  have enough: "(400::int) \<le> (\<Sum>c\<leftarrow>filter (movable cuda) abc_chunks. int (get_payload_space c))"
    by (simp add: abc_chunks_def hold_chunk_def movable_def cuda_def)
  from derive_eviction_list_sufficient [OF ne enough] ne enough show ?thesis by blast
qed

text \<open>
  Claim C4. Every chunk identifier in the returned plan refers to a chunk whose device
  is not \<open>None\<close> and has the target device's type, whose state is neither \<open>COMPUTE\<close>
  nor \<open>RELEASED\<close>, and which is not pinned. The prediction plays no part: a chunk in
  \<open>COMPUTE\<close> state or a pinned chunk is in no plan. The call returns such a plan
  unless the required byte count is beyond the float range and more than the
  candidates hold, where building the warning raises \<open>OverflowError\<close>.
\<close>

theorem derive_eviction_list_admissible:
  assumes "traces_nonempty p"
  shows "(\<exists>plan log. derive_eviction_list p chunks need_bytes target_device = Inr (plan, log)
           \<and> (\<forall>i\<in>set plan. i < length chunks
                 \<and> (\<exists>d. get_device (chunks ! i) = Some d \<and> dev_type d = dev_type target_device)
                 \<and> get_state (chunks ! i) \<noteq> COMPUTE
                 \<and> get_state (chunks ! i) \<noteq> RELEASED
                 \<and> \<not> is_pin (chunks ! i)))
         \<or> (derive_eviction_list p chunks need_bytes target_device = Inl OverflowError
            \<and> float_limit \<le> need_bytes
            \<and> (\<Sum>c\<leftarrow>filter (movable target_device) chunks. int (get_payload_space c))
                  < need_bytes)"
proof -
  let ?R = "ranking p target_device chunks"
  from assms have ok: "is_warmup (metronome p) \<or> traces_nonempty p" by simp
  have "i < length chunks
          \<and> (\<exists>d. get_device (chunks ! i) = Some d \<and> dev_type d = dev_type target_device)
          \<and> get_state (chunks ! i) \<noteq> COMPUTE
          \<and> get_state (chunks ! i) \<noteq> RELEASED
          \<and> \<not> is_pin (chunks ! i)"
    if "i \<in> set (map snd (take n ?R))" for i n
  proof -
    from that have "i \<in> set (map snd ?R)"
      by (auto dest: in_set_takeD)
    then have "i < length chunks \<and> movable target_device (chunks ! i)"
      by (simp only: ranking_ids set_candidates mem_Collect_eq)
    then show ?thesis using movable_iff [of target_device "chunks ! i"] by blast
  qed
  with derive_plan_cases [OF ok, of chunks need_bytes target_device]
  show ?thesis by blast
qed

theorem derive_eviction_list_admissible_witness:
  "traces_nonempty abc_policy
   \<and> (\<exists>plan log. derive_eviction_list abc_policy mixed_chunks 4000 cuda = Inr (plan, log)
         \<and> plan = [3]
         \<and> (\<forall>i\<in>set plan. i < length mixed_chunks
               \<and> (\<exists>d. get_device (mixed_chunks ! i) = Some d \<and> dev_type d = dev_type cuda)
               \<and> get_state (mixed_chunks ! i) \<noteq> COMPUTE
               \<and> get_state (mixed_chunks ! i) \<noteq> RELEASED
               \<and> \<not> is_pin (mixed_chunks ! i)))"
proof -
  have ne: "traces_nonempty abc_policy"
    by (simp add: traces_nonempty_def abc_policy_def)
  have run: "\<exists>log. derive_eviction_list abc_policy mixed_chunks 4000 cuda = Inr ([3], log)"
    by (simp add: derive_eviction_list_def warn_not_enough_space_def float_overflows_def
        float_limit_def abc_policy_def mixed_chunks_def hold_chunk_def
        cuda_def cpu_def replay_at_def movable_def chunk_next_used_moment_def q_put_def)
  then have returns: "derive_eviction_list abc_policy mixed_chunks 4000 cuda \<noteq> Inl OverflowError"
    by auto
  from derive_eviction_list_admissible [OF ne, of mixed_chunks 4000 cuda] returns
  obtain plan log where pl:
    "derive_eviction_list abc_policy mixed_chunks 4000 cuda = Inr (plan, log)"
    "\<forall>i\<in>set plan. i < length mixed_chunks
               \<and> (\<exists>d. get_device (mixed_chunks ! i) = Some d \<and> dev_type d = dev_type cuda)
               \<and> get_state (mixed_chunks ! i) \<noteq> COMPUTE
               \<and> get_state (mixed_chunks ! i) \<noteq> RELEASED
               \<and> \<not> is_pin (mixed_chunks ! i)"
    by blast
  from pl(1) run have "plan = [3]" by auto
  with pl ne show ?thesis by blast
qed

text \<open>
  Claim C5 says that whenever the payload sizes of all evictable candidates add up to
  strictly less than the required byte count, the call returns every candidate, emits
  a log entry and raises nothing. The warning message contains \<open>need_bytes / 1e6\<close>,
  which raises \<open>OverflowError\<close> once \<open>need_bytes\<close> is beyond the float range: in the
  A, B, C scenario a requirement of \<open>2^1024\<close> bytes ends in that exception.
\<close>

theorem underfulfilled_overflow_counterexample:
  "(\<Sum>c\<leftarrow>filter (movable cuda) abc_chunks. int (get_payload_space c)) < 2 ^ 1024
   \<and> derive_eviction_list abc_policy abc_chunks (2 ^ 1024) cuda = Inl OverflowError"
  by (simp add: derive_eviction_list_def warn_not_enough_space_def float_overflows_def
      float_limit_def abc_policy_def abc_chunks_def hold_chunk_def cuda_def
      replay_at_def movable_def chunk_next_used_moment_def q_put_def)

text \<open>
  Claim C5 as amended. If the required byte count is within the float range (below
  \<open>2^1024 - 2^970\<close>) and the payload sizes of all evictable candidates add up to
  strictly less than it, the call returns normally, the plan holds every evictable
  candidate (each once), and one log entry is emitted, reporting the bytes needed and
  the bytes obtained.
\<close>

theorem derive_eviction_list_underfulfilled:
  assumes "traces_nonempty p"
    and "(\<Sum>c\<leftarrow>filter (movable target_device) chunks. int (get_payload_space c)) < need_bytes"
    and "need_bytes < float_limit"
  shows "\<exists>plan info. derive_eviction_list p chunks need_bytes target_device =
            Inr (plan, [Log_dist target_device need_bytes
                   (\<Sum>c\<leftarrow>filter (movable target_device) chunks. int (get_payload_space c)) info])
           \<and> set plan = {i. i < length chunks \<and> movable target_device (chunks ! i)}
           \<and> distinct plan"
proof -
  let ?R = "ranking p target_device chunks"
  let ?total = "\<Sum>c\<leftarrow>filter (movable target_device) chunks. int (get_payload_space c)"
  let ?info = "map (\<lambda>i. (next_mom_of p target_device i, i)) (candidates target_device chunks)"
  from assms(1) have ok: "is_warmup (metronome p) \<or> traces_nonempty p" by simp
  have total: "payload_sum chunks (map snd ?R) = ?total"
    by (simp only: payload_sum_ranking payload_sum_candidates)
  from derive_shape [OF ok, of target_device chunks need_bytes]
  obtain n where n: "n \<le> length ?R"
    "derive_eviction_list p chunks need_bytes target_device =
       (case warn_not_enough_space target_device need_bytes
               (payload_sum chunks (map snd (take n ?R))) ?info of
          Inl e \<Rightarrow> Inl e
        | Inr log \<Rightarrow> Inr (map snd (take n ?R), log))"
    "n = length ?R \<or> need_bytes \<le> payload_sum chunks (map snd (take n ?R))"
    by blast
  have "payload_sum chunks (take n (map snd ?R)) \<le> payload_sum chunks (map snd ?R)"
    by (rule payload_sum_take_le)
  then have "payload_sum chunks (map snd (take n ?R)) \<le> ?total"
    by (simp only: take_map total)
  with assms(2) n(3) have all: "n = length ?R" by linarith
  have whole: "take n ?R = ?R" unfolding all by (rule take_all) simp
  have "0 \<le> payload_sum chunks (map snd ?R)" by (rule payload_sum_nonneg)
  then have nonneg: "0 \<le> ?total" by (simp only: total)
  from n(2) have
    "derive_eviction_list p chunks need_bytes target_device =
       (case warn_not_enough_space target_device need_bytes ?total ?info of
          Inl e \<Rightarrow> Inl e
        | Inr log \<Rightarrow> Inr (map snd ?R, log))"
    by (simp only: whole total)
  then have run:
    "derive_eviction_list p chunks need_bytes target_device =
       Inr (map snd ?R, [Log_dist target_device need_bytes ?total ?info])"
    by (simp add: warn_in_range [OF nonneg assms(2,3)])
  have ids: "set (map snd ?R) = {i. i < length chunks \<and> movable target_device (chunks ! i)}"
    by (simp only: ranking_ids set_candidates)
  have dist: "distinct (map snd ?R)"
    by (rule distinct_ranking_ids)
  from run ids dist show ?thesis by blast
qed

theorem derive_eviction_list_underfulfilled_witness:
  "traces_nonempty abc_policy
   \<and> (\<Sum>c\<leftarrow>filter (movable cuda) abc_chunks. int (get_payload_space c)) < 4000
   \<and> (4000::int) < float_limit
   \<and> (\<exists>plan info. derive_eviction_list abc_policy abc_chunks 4000 cuda =
            Inr (plan, [Log_dist cuda 4000 1000 info])
         \<and> set plan = {0, 1, 2} \<and> distinct plan)"
proof -
  have ne: "traces_nonempty abc_policy"
    by (simp add: traces_nonempty_def abc_policy_def)
  have total: "(\<Sum>c\<leftarrow>filter (movable cuda) abc_chunks. int (get_payload_space c)) = 1000"
    by (simp add: abc_chunks_def hold_chunk_def movable_def cuda_def)
  then have short: "(\<Sum>c\<leftarrow>filter (movable cuda) abc_chunks. int (get_payload_space c)) < 4000"
    by simp
  have range: "(4000::int) < float_limit"
    by (simp add: float_limit_def)
  have run: "\<exists>log. derive_eviction_list abc_policy abc_chunks 4000 cuda = Inr ([1, 2, 0], log)"
    by (simp add: derive_eviction_list_def warn_not_enough_space_def float_overflows_def
      float_limit_def abc_policy_def abc_chunks_def hold_chunk_def cuda_def
      replay_at_def movable_def chunk_next_used_moment_def q_put_def)
  from derive_eviction_list_underfulfilled [OF ne short range] obtain plan info where pl:
    "derive_eviction_list abc_policy abc_chunks 4000 cuda =
       Inr (plan, [Log_dist cuda 4000
         (\<Sum>c\<leftarrow>filter (movable cuda) abc_chunks. int (get_payload_space c)) info])"
    "distinct plan"
    by blast
  from pl(1) run have "plan = [1, 2, 0]" by auto
  then have "set plan = {0, 1, 2}" by auto
  with pl ne short range show ?thesis unfolding total by blast
qed

text \<open>A requirement of zero or less is met by the first chunk taken from the queue.\<close>

lemma derive_nonpositive:
  assumes ok: "is_warmup (metronome p) \<or> traces_nonempty p"
    and need: "need \<le> 0"
  shows "derive_eviction_list p chunks need dev =
           Inr (map snd (take 1 (ranking p dev chunks)), [])"
proof -
  let ?R = "ranking p dev chunks"
  have fill: "fill_queue p dev (enumerate 0 chunks) [] [] =
     Inr (?R, map (\<lambda>i. (next_mom_of p dev i, i)) (candidates dev chunks))"
    by (rule fill_queue_enumerate) (rule next_mom_ok [OF ok])
  show ?thesis
  proof (cases ?R)
    case Nil
    with fill need show ?thesis
      by (simp add: derive_eviction_list_def warn_not_enough_space_def)
  next
    case (Cons e rest)
    obtain k i where e: "e = (k, i)" by (cases e)
    from ranking_in_range [of p dev chunks] Cons e have "i < length chunks" by simp
    with need have "drain_queue chunks need (e # rest) [] 0 =
        Inr ([i], int (get_payload_space (chunks ! i)))"
      by (simp add: e)
    with fill need Cons e show ?thesis
      by (simp add: derive_eviction_list_def warn_not_enough_space_def)
  qed
qed

text \<open>
  Claim C7. During warm-up the prediction is 0 for every chunk identifier and device,
  whatever the traces and the current moment; the returned plan is then in strictly
  ascending order of chunk identifier, so any two chunks in it appear in that order.
  The call returns such a plan unless the required byte count is beyond the float
  range and more than the candidates hold, where building the warning raises
  \<open>OverflowError\<close>.
\<close>

theorem warmup_ties_by_chunk_id:
  assumes "is_warmup (metronome p)"
  shows "chunk_next_used_moment p chunk_id dev = Inr 0
         \<and> ((\<exists>plan log. derive_eviction_list p chunks need_bytes target_device = Inr (plan, log)
                 \<and> sorted_wrt (<) plan)
              \<or> (derive_eviction_list p chunks need_bytes target_device = Inl OverflowError
            \<and> float_limit \<le> need_bytes
            \<and> (\<Sum>c\<leftarrow>filter (movable target_device) chunks. int (get_payload_space c))
                  < need_bytes))"
proof -
  from assms have ok: "is_warmup (metronome p) \<or> traces_nonempty p" by simp
  have zero: "chunk_next_used_moment p i d = Inr 0" for i d
    using assms by (rule next_mom_warmup)
  have "sorted_wrt (<) (map snd (take n (ranking p target_device chunks)))" for n
  proof -
    have "sorted_wrt (ranks_before p target_device)
            (map snd (take n (ranking p target_device chunks)))"
      by (rule plan_ranked [OF ok])
    then show ?thesis
      by (rule sorted_wrt_mono_rel [rotated]) (simp add: ranks_before_def zero)
  qed
  with derive_plan_cases [OF ok, of chunks need_bytes target_device] zero
  show ?thesis by blast
qed

theorem warmup_ties_by_chunk_id_witness:
  "is_warmup (metronome warm_policy)
   \<and> chunk_next_used_moment warm_policy 1 cuda = Inr 0
   \<and> (\<exists>plan log. derive_eviction_list warm_policy abc_chunks 4000 cuda = Inr (plan, log)
         \<and> sorted_wrt (<) plan \<and> plan = [0, 1, 2])"
proof -
  have warm: "is_warmup (metronome warm_policy)"
    by (simp add: warm_policy_def warmup_at_def)
  have run: "\<exists>log. derive_eviction_list warm_policy abc_chunks 4000 cuda = Inr ([0, 1, 2], log)"
    by (simp add: derive_eviction_list_def warn_not_enough_space_def float_overflows_def
      float_limit_def warm_policy_def abc_chunks_def hold_chunk_def cuda_def
      warmup_at_def movable_def chunk_next_used_moment_def q_put_def)
  then have returns: "derive_eviction_list warm_policy abc_chunks 4000 cuda \<noteq> Inl OverflowError"
    by auto
  from warmup_ties_by_chunk_id [OF warm, of 1 cuda abc_chunks 4000 cuda] returns
  obtain plan log where pl:
    "chunk_next_used_moment warm_policy 1 cuda = Inr 0"
    "derive_eviction_list warm_policy abc_chunks 4000 cuda = Inr (plan, log)"
    "sorted_wrt (<) plan"
    by blast
  from pl(2) run have "plan = [0, 1, 2]" by auto
  with pl warm show ?thesis by blast
qed

text \<open>
  Claim C10. With at least one evictable candidate and a required byte count of zero
  or less, the plan holds exactly one chunk identifier: the loop takes a candidate from
  the queue before it first compares the accumulated bytes with the requirement.
  Payload sizes are byte counts, hence never negative.
\<close>

theorem nonpositive_need_single_chunk:
  assumes "traces_nonempty p"
    and "need_bytes \<le> 0"
    and "\<exists>i<length chunks. movable target_device (chunks ! i)"
  shows "\<exists>c. derive_eviction_list p chunks need_bytes target_device = Inr ([c], [])
           \<and> c < length chunks \<and> movable target_device (chunks ! c)"
proof -
  let ?R = "ranking p target_device chunks"
  from assms(1) have ok: "is_warmup (metronome p) \<or> traces_nonempty p" by simp
  from assms(3) have "set (candidates target_device chunks) \<noteq> {}"
    by (auto simp: set_candidates)
  then have "set (map snd ?R) \<noteq> {}" unfolding ranking_ids .
  then obtain e rest where R: "?R = e # rest" by (cases ?R) auto
  then have "snd e \<in> set (map snd ?R)" by simp
  then have cand: "snd e < length chunks \<and> movable target_device (chunks ! snd e)"
    by (simp only: ranking_ids set_candidates mem_Collect_eq)
  from derive_nonpositive [OF ok assms(2), of chunks target_device] R
  have "derive_eviction_list p chunks need_bytes target_device = Inr ([snd e], [])"
    by simp
  with cand show ?thesis by blast
qed

theorem nonpositive_need_single_chunk_witness:
  "traces_nonempty abc_policy \<and> (0::int) \<le> 0
   \<and> (\<exists>i<length abc_chunks. movable cuda (abc_chunks ! i))
   \<and> (\<exists>c. derive_eviction_list abc_policy abc_chunks 0 cuda = Inr ([c], []) \<and> c = 1)"
proof -
  have ne: "traces_nonempty abc_policy"
    by (simp add: traces_nonempty_def abc_policy_def)
  have some: "\<exists>i<length abc_chunks. movable cuda (abc_chunks ! i)"
    by (rule exI [of _ 0]) (simp add: abc_chunks_def hold_chunk_def movable_def cuda_def)
  have run: "derive_eviction_list abc_policy abc_chunks 0 cuda = Inr ([1], [])"
    by (simp add: derive_eviction_list_def warn_not_enough_space_def float_overflows_def
      float_limit_def abc_policy_def abc_chunks_def hold_chunk_def cuda_def
      replay_at_def movable_def chunk_next_used_moment_def q_put_def)
  from nonpositive_need_single_chunk [OF ne _ some, of 0] obtain c where
    "derive_eviction_list abc_policy abc_chunks 0 cuda = Inr ([c], [])"
    by auto
  moreover from this run have "c = 1" by simp
  ultimately show ?thesis using ne some by blast
qed

lemma untraced_prediction:
  assumes "\<not> is_warmup (metronome p)" and "chunk_access_dict p (a, dev) = None"
  shows "chunk_next_used_moment p a dev = Inr (2 * total_moment (metronome p))"
  using assms by (simp add: chunk_next_used_moment_def)

lemma traced_prediction_bound:
  assumes "\<not> is_warmup (metronome p)"
    and "chunk_access_dict p (b, dev) = Some xs"
    and "xs \<noteq> []"
    and "\<forall>m\<in>set xs. m < total_moment (metronome p)"
  shows "\<exists>mb. chunk_next_used_moment p b dev = Inr mb \<and> mb < 2 * total_moment (metronome p)"
proof (cases "scan_moments (moment (metronome p)) xs")
  case None
  from assms(3) obtain x rest where xs: "xs = x # rest" by (cases xs) auto
  with assms(4) have "x < total_moment (metronome p)" by simp
  moreover from None assms(1,2) xs have
    "chunk_next_used_moment p b dev = Inr (total_moment (metronome p) + x)"
    by (simp add: chunk_next_used_moment_def)
  ultimately show ?thesis by simp
next
  case (Some m)
  then have "m \<in> set xs"
    unfolding scan_moments_Some using nth_mem by blast
  with assms(4) have "m < total_moment (metronome p)" by blast
  moreover from Some assms(1,2) have "chunk_next_used_moment p b dev = Inr m"
    by (simp add: chunk_next_used_moment_def)
  ultimately show ?thesis by simp
qed

lemma untraced_before_traced:
  assumes replay: "\<not> is_warmup (metronome p)"
    and ne: "traces_nonempty p"
    and untraced: "chunk_access_dict p (a, dev) = None"
    and cand: "a < length chunks" "movable dev (chunks ! a)"
    and traced: "chunk_access_dict p (b, dev) = Some xs"
    and bound: "\<forall>m\<in>set xs. m < total_moment (metronome p)"
    and run: "derive_eviction_list p chunks need dev = Inr (plan, log)"
    and b: "b \<in> set plan"
  shows "\<exists>i j. i < j \<and> j < length plan \<and> plan ! i = a \<and> plan ! j = b"
proof -
  let ?R = "ranking p dev chunks"
  let ?T = "total_moment (metronome p)"
  from ne have ok: "is_warmup (metronome p) \<or> traces_nonempty p" by simp
  from derive_plan_cases [OF ok, of chunks need dev] run
  obtain n where plan: "plan = map snd (take n ?R)" by auto
  from b obtain j where j: "j < length plan" "plan ! j = b"
    by (auto simp: in_set_conv_nth)
  from j(1) plan have jn: "j < n" "j < length ?R" by simp_all
  from j(2) plan jn have sndj: "snd (?R ! j) = b" by simp
  from jn have "?R ! j \<in> set ?R" by simp
  then have "?R ! j = queue_entry p dev (snd (?R ! j))"
    by (auto simp: set_ranking queue_entry_def)
  with sndj have Rj: "?R ! j = queue_entry p dev b" by simp
  from cand have "a \<in> set (candidates dev chunks)" by (simp add: set_candidates)
  then have "queue_entry p dev a \<in> set ?R" by (simp add: set_ranking)
  then obtain i where i: "i < length ?R" "?R ! i = queue_entry p dev a"
    by (auto simp: in_set_conv_nth)
  from ne traced have "xs \<noteq> []" by (auto simp: traces_nonempty_def)
  from traced_prediction_bound [OF replay traced this bound]
  have mb: "next_mom_of p dev b < 2 * ?T" by (auto simp: next_mom_of_def)
  from untraced_prediction [OF replay untraced]
  have ma: "next_mom_of p dev a = 2 * ?T" by (simp add: next_mom_of_def)
  from ma mb have less: "queue_entry p dev a < queue_entry p dev b"
    by (simp add: queue_entry_def)
  have strict: "\<And>i j. i < j \<Longrightarrow> j < length ?R \<Longrightarrow> ?R ! i < ?R ! j"
    using strict_ranking [of p dev chunks] by (simp add: sorted_wrt_iff_nth_less)
  have "i < j"
  proof (rule ccontr)
    assume "\<not> i < j"
    then consider "j = i" | "j < i" by linarith
    then show False
    proof cases
      case 1
      with Rj i(2) less show False by simp
    next
      case 2
      from strict [OF 2 i(1)] Rj i(2) less show False by simp
    qed
  qed
  moreover from this jn plan i(2) have "plan ! i = a"
    by (simp add: queue_entry_def)
  ultimately show ?thesis using j by blast
qed

section \<open>Chunks without a trace\<close>

text \<open>
  Claim C6. After warm-up, a chunk and device without a recorded trace is predicted
  at \<open>2 * total_moment\<close> (20 for a period of 10). If the recorded moments of a traced
  chunk are all strictly less than \<open>total_moment\<close>, its prediction is strictly less
  than that, and in every plan an evictable untraced chunk stands before any traced
  chunk of the plan.
\<close>

theorem untraced_chunk_ranked_first:
  "(\<not> is_warmup (metronome p) \<and> chunk_access_dict p (a, dev) = None
      \<longrightarrow> chunk_next_used_moment p a dev = Inr (2 * total_moment (metronome p)))
   \<and> (\<not> is_warmup (metronome p) \<and> chunk_access_dict p (b, dev) = Some xs \<and> xs \<noteq> []
        \<and> (\<forall>m\<in>set xs. m < total_moment (metronome p))
      \<longrightarrow> (\<exists>mb. chunk_next_used_moment p b dev = Inr mb
             \<and> mb < 2 * total_moment (metronome p)))
   \<and> (\<not> is_warmup (metronome p) \<and> traces_nonempty p
        \<and> chunk_access_dict p (a, dev) = None
        \<and> a < length chunks \<and> movable dev (chunks ! a)
        \<and> chunk_access_dict p (b, dev) = Some xs
        \<and> (\<forall>m\<in>set xs. m < total_moment (metronome p))
        \<and> derive_eviction_list p chunks need_bytes dev = Inr (plan, log)
        \<and> b \<in> set plan
      \<longrightarrow> (\<exists>i j. i < j \<and> j < length plan \<and> plan ! i = a \<and> plan ! j = b))
   \<and> chunk_next_used_moment (untraced_at 3) 0 cuda = Inr 20"
proof -
  have "chunk_next_used_moment (untraced_at 3) 0 cuda = Inr 20"
    by (simp add: chunk_next_used_moment_def untraced_at_def init_policy_def replay_at_def)
  then show ?thesis
    using untraced_prediction [of p a dev] traced_prediction_bound [of p b dev xs]
      untraced_before_traced [of p a dev chunks b xs need_bytes plan log]
    by blast
qed

theorem untraced_chunk_ranked_first_witness:
  "\<not> is_warmup (metronome abc_policy) \<and> traces_nonempty abc_policy
   \<and> chunk_access_dict abc_policy (3, cuda) = None
   \<and> chunk_access_dict abc_policy (1, cuda) = Some [9]
   \<and> \<not> (\<exists>m\<in>set [9]. \<not> m < total_moment (metronome abc_policy))
   \<and> 3 < length abcd_chunks \<and> movable cuda (abcd_chunks ! 3)
   \<and> derive_eviction_list abc_policy abcd_chunks 4000 cuda =
        Inr ([3, 1, 2, 0], [Log_dist cuda 4000 1050 [(3, 0), (9, 1), (6, 2), (20, 3)]])
   \<and> chunk_next_used_moment abc_policy 3 cuda = Inr 20
   \<and> (\<exists>mb. chunk_next_used_moment abc_policy 1 cuda = Inr mb \<and> mb < 20)
   \<and> (\<exists>i j. i < j \<and> j < length [3, 1, 2, 0::nat]
         \<and> [3, 1, 2, 0] ! i = (3::nat) \<and> [3, 1, 2, 0] ! j = (1::nat))"
proof -
  have replay: "\<not> is_warmup (metronome abc_policy)"
    by (simp add: abc_policy_def replay_at_def)
  have total: "total_moment (metronome abc_policy) = 10"
    by (simp add: abc_policy_def replay_at_def)
  have ne: "traces_nonempty abc_policy"
    by (simp add: traces_nonempty_def abc_policy_def)
  have untraced: "chunk_access_dict abc_policy (3, cuda) = None"
    by (simp add: abc_policy_def)
  have traced: "chunk_access_dict abc_policy (1, cuda) = Some [9]"
    by (simp add: abc_policy_def)
  have bound: "\<forall>m\<in>set [9]. m < total_moment (metronome abc_policy)"
    by (simp add: total)
  have cand: "3 < length abcd_chunks" "movable cuda (abcd_chunks ! 3)"
    by (simp_all add: abcd_chunks_def abc_chunks_def hold_chunk_def movable_def)
  have run: "derive_eviction_list abc_policy abcd_chunks 4000 cuda =
        Inr ([3, 1, 2, 0], [Log_dist cuda 4000 1050 [(3, 0), (9, 1), (6, 2), (20, 3)]])"
    by (simp add: derive_eviction_list_def warn_not_enough_space_def float_overflows_def
      float_limit_def abc_policy_def abcd_chunks_def abc_chunks_def
        hold_chunk_def cuda_def replay_at_def movable_def chunk_next_used_moment_def q_put_def)
  have inplan: "(1::nat) \<in> set [3, 1, 2, 0]" by simp
  note inst = untraced_chunk_ranked_first [of abc_policy 3 cuda 1 "[9]" abcd_chunks 4000 "[3, 1, 2, 0]"
      "[Log_dist cuda 4000 1050 [(3, 0), (9, 1), (6, 2), (20, 3)]]"]
  from inst replay untraced have first: "chunk_next_used_moment abc_policy 3 cuda = Inr 20"
    by (simp add: total)
  from inst replay traced bound
  have second: "\<exists>mb. chunk_next_used_moment abc_policy 1 cuda = Inr mb \<and> mb < 20"
    by (simp add: total)
  from inst replay ne untraced cand traced bound run inplan
  have third: "\<exists>i j. i < j \<and> j < length [3, 1, 2, 0::nat]
         \<and> [3, 1, 2, 0] ! i = (3::nat) \<and> [3, 1, 2, 0] ! j = (1::nat)"
    by blast
  from bound have nb: "\<not> (\<exists>m\<in>set [9]. \<not> m < total_moment (metronome abc_policy))"
    by blast
  from replay ne untraced traced nb cand run first second third show ?thesis
    by blast
qed

section \<open>The invariant of the access dictionary\<close>

lemma traces_nonempty_init: "traces_nonempty (init_policy m)"
  by (simp add: traces_nonempty_def init_policy_def)

lemma traces_nonempty_trace_access:
  "traces_nonempty p \<Longrightarrow> traces_nonempty (trace_access p chunk_id dev)"
  by (simp add: traces_nonempty_def trace_access_def Let_def)

section \<open>Requests outside the intended range\<close>

text \<open>
  Claim C8 says that a negative required byte count is rejected with a precondition
  failure. The function has no such check: in the A, B, C scenario a requirement of
  \<open>-1\<close> returns the plan \<open>[B]\<close>.
\<close>

theorem negative_need_counterexample:
  "derive_eviction_list abc_policy abc_chunks (- 1) cuda = Inr ([1], [])"
  by (simp add: derive_eviction_list_def warn_not_enough_space_def float_overflows_def
      float_limit_def abc_policy_def abc_chunks_def hold_chunk_def cuda_def
      replay_at_def movable_def chunk_next_used_moment_def q_put_def)

text \<open>
  Claim C8 as amended. A call with a negative required byte count is not rejected: it
  returns normally, without a log entry, a plan of at most one chunk. The plan is the
  head of the ranking: it is empty exactly when no chunk is evictable, and otherwise
  holds the evictable chunk that ranks before every other evictable chunk (predicted
  to be used latest, the smaller identifier on a tie).
\<close>

theorem negative_need_not_rejected:
  assumes "traces_nonempty p" and "need_bytes < 0"
  shows "\<exists>plan. derive_eviction_list p chunks need_bytes target_device = Inr (plan, [])
           \<and> plan = map snd (take 1 (ranking p target_device chunks))
           \<and> length plan \<le> 1
           \<and> (plan = []) = (candidates target_device chunks = [])
           \<and> (\<forall>c\<in>set plan. c < length chunks \<and> movable target_device (chunks ! c)
                 \<and> (\<forall>c'. c' < length chunks \<and> movable target_device (chunks ! c') \<and> c' \<noteq> c
                        \<longrightarrow> ranks_before p target_device c c'))"
proof -
  let ?R = "ranking p target_device chunks"
  let ?plan = "map snd (take 1 ?R)"
  from assms(1) have ok: "is_warmup (metronome p) \<or> traces_nonempty p" by simp
  from assms(2) have "need_bytes \<le> 0" by simp
  from derive_nonpositive [OF ok this, of chunks target_device]
  have run: "derive_eviction_list p chunks need_bytes target_device = Inr (?plan, [])" .
  have "length ?R = length (candidates target_device chunks)"
    by (simp add: ranking_def)
  then have "(?R = []) = (candidates target_device chunks = [])"
    by (metis length_0_conv)
  then have empty: "(?plan = []) = (candidates target_device chunks = [])"
    by (cases ?R) simp_all
  have short: "length ?plan \<le> 1" by simp
  have top: "c < length chunks \<and> movable target_device (chunks ! c)
               \<and> (\<forall>c'. c' < length chunks \<and> movable target_device (chunks ! c') \<and> c' \<noteq> c
                      \<longrightarrow> ranks_before p target_device c c')"
    if c: "c \<in> set ?plan" for c
  proof -
    from c obtain e rest where R: "?R = e # rest" and ce: "c = snd e"
      by (cases ?R) auto
    from R have "e \<in> set ?R" by simp
    then have e: "e = queue_entry p target_device c"
      unfolding ce by (auto simp: set_ranking queue_entry_def)
    from R ce have "c \<in> set (map snd ?R)" by simp
    then have cand: "c < length chunks \<and> movable target_device (chunks ! c)"
      by (simp only: ranking_ids set_candidates mem_Collect_eq)
    have "ranks_before p target_device c c'"
      if c': "c' < length chunks" "movable target_device (chunks ! c')" "c' \<noteq> c" for c'
    proof -
      from c'(1,2) have "c' \<in> set (candidates target_device chunks)"
        by (simp add: set_candidates)
      then have "queue_entry p target_device c' \<in> set ?R"
        by (simp add: set_ranking)
      moreover from c'(3) e have "queue_entry p target_device c' \<noteq> e"
        by (simp add: queue_entry_def)
      ultimately have "queue_entry p target_device c' \<in> set rest"
        using R by simp
      moreover from strict_ranking [of p target_device chunks] R
      have "\<forall>x\<in>set rest. e < x" by simp
      ultimately have "queue_entry p target_device c < queue_entry p target_device c'"
        using e by blast
      then show ?thesis by (rule ranks_before_entries [OF ok])
    qed
    with cand show ?thesis by blast
  qed
  from run empty short top show ?thesis by blast
qed

theorem negative_need_not_rejected_witness:
  "traces_nonempty abc_policy \<and> (- 5 :: int) < 0
   \<and> (\<exists>plan. derive_eviction_list abc_policy abc_chunks (- 5) cuda = Inr (plan, [])
         \<and> plan = map snd (take 1 (ranking abc_policy cuda abc_chunks))
         \<and> length plan \<le> 1 \<and> plan = [1]
         \<and> ranks_before abc_policy cuda 1 0 \<and> ranks_before abc_policy cuda 1 2)"
proof -
  have ne: "traces_nonempty abc_policy"
    by (simp add: traces_nonempty_def abc_policy_def)
  have neg: "(- 5 :: int) < 0" by simp
  have run: "derive_eviction_list abc_policy abc_chunks (- 5) cuda = Inr ([1], [])"
    by (simp add: derive_eviction_list_def warn_not_enough_space_def float_overflows_def
      float_limit_def abc_policy_def abc_chunks_def hold_chunk_def cuda_def
      replay_at_def movable_def chunk_next_used_moment_def q_put_def)
  have others: "0 < length abc_chunks \<and> movable cuda (abc_chunks ! 0) \<and> (0::nat) \<noteq> 1"
    "2 < length abc_chunks \<and> movable cuda (abc_chunks ! 2) \<and> (2::nat) \<noteq> 1"
    by (simp_all add: abc_chunks_def hold_chunk_def movable_def)
  from negative_need_not_rejected [OF ne neg, of abc_chunks cuda] obtain plan where pl:
    "derive_eviction_list abc_policy abc_chunks (- 5) cuda = Inr (plan, [])"
    "plan = map snd (take 1 (ranking abc_policy cuda abc_chunks))"
    "length plan \<le> 1"
    "\<forall>c\<in>set plan. c < length abc_chunks \<and> movable cuda (abc_chunks ! c)
         \<and> (\<forall>c'. c' < length abc_chunks \<and> movable cuda (abc_chunks ! c') \<and> c' \<noteq> c
                \<longrightarrow> ranks_before abc_policy cuda c c')"
    by blast
  from pl(1) run have plan: "plan = [1]" by simp
  with pl(4) others have first: "ranks_before abc_policy cuda 1 0"
    and second: "ranks_before abc_policy cuda 1 2"
    by simp_all
  show ?thesis
  proof (intro conjI exI [of _ plan])
    show "traces_nonempty abc_policy" by (rule ne)
    show "(- 5 :: int) < 0" by (rule neg)
    show "derive_eviction_list abc_policy abc_chunks (- 5) cuda = Inr (plan, [])" by (rule pl(1))
    show "plan = map snd (take 1 (ranking abc_policy cuda abc_chunks))" by (rule pl(2))
    show "length plan \<le> 1" by (rule pl(3))
    show "plan = [1]" by (rule plan)
    show "ranks_before abc_policy cuda 1 0" by (rule first)
    show "ranks_before abc_policy cuda 1 2" by (rule second)
  qed
qed

section \<open>Tracing after warm-up\<close>

text \<open>
  Claim C9 says that a call of \<open>trace_access\<close> after warm-up has no effect on later
  predictions. \<open>trace_access\<close> does not look at \<open>is_warmup\<close>: after warm-up, at moment 3
  of a period of 10 and with nothing recorded, chunk 0 is predicted at 20; after one
  call of \<open>trace_access\<close> for it the prediction is 13, and the plan for 50 bytes over
  two equal chunks changes from \<open>[0]\<close> to \<open>[1]\<close>.
\<close>

theorem trace_access_after_warmup_changes_prediction:
  "\<not> is_warmup (metronome (untraced_at 3))
   \<and> chunk_next_used_moment (untraced_at 3) 0 cuda = Inr 20
   \<and> chunk_next_used_moment (trace_access (untraced_at 3) 0 cuda) 0 cuda = Inr 13
   \<and> derive_eviction_list (untraced_at 3) pair_chunks 50 cuda = Inr ([0], [])
   \<and> derive_eviction_list (trace_access (untraced_at 3) 0 cuda) pair_chunks 50 cuda
       = Inr ([1], [])"
proof -
  have replay: "\<not> is_warmup (metronome (untraced_at 3))"
    by (simp add: untraced_at_def init_policy_def replay_at_def)
  have before: "chunk_next_used_moment (untraced_at 3) 0 cuda = Inr 20"
    by (simp add: chunk_next_used_moment_def untraced_at_def init_policy_def replay_at_def)
  have after: "chunk_next_used_moment (trace_access (untraced_at 3) 0 cuda) 0 cuda = Inr 13"
    by (simp add: chunk_next_used_moment_def trace_access_def untraced_at_def init_policy_def
        replay_at_def)
  have plan_before: "derive_eviction_list (untraced_at 3) pair_chunks 50 cuda = Inr ([0], [])"
    by (simp add: derive_eviction_list_def warn_not_enough_space_def float_overflows_def
      float_limit_def untraced_at_def init_policy_def pair_chunks_def
        hold_chunk_def cuda_def replay_at_def movable_def chunk_next_used_moment_def q_put_def)
  have plan_after:
    "derive_eviction_list (trace_access (untraced_at 3) 0 cuda) pair_chunks 50 cuda
       = Inr ([1], [])"
    by (simp add: derive_eviction_list_def warn_not_enough_space_def float_overflows_def
      float_limit_def trace_access_def untraced_at_def init_policy_def
        pair_chunks_def hold_chunk_def cuda_def replay_at_def movable_def
        chunk_next_used_moment_def q_put_def)
  from replay before after plan_before plan_after show ?thesis by blast
qed

end
